theory Spec2Isabelle
  imports Main
begin

text \<open>
  The user store of the repository: the entity \<^verbatim>\<open>User\<close>, the in-memory repository
  \<^verbatim>\<open>MemoryUserRepository\<close> and the service \<^verbatim>\<open>UserService\<close> on top of it, as functions
  on an explicit state. The HTTP handlers, the routes and the middleware are outside the
  scope of the properties stated here.
\<close>

section \<open>The user entity (package entities)\<close>

text \<open>
  \<^verbatim>\<open>type User struct { ID string; Name string; Email string }\<close>
\<close>

record User =
  ID :: string
  Name :: string
  Email :: string

section \<open>Memory: user objects and backing arrays\<close>

text \<open>
  The repository holds \<^verbatim>\<open>[]*entities.User\<close>: a slice of pointers. The service
  mutates a user through the pointer that \<^verbatim>\<open>GetByID\<close> hands out, and \<^verbatim>\<open>GetAll\<close>
  copies the slice into a new backing array, so both levels of sharing are explicit here:
  a pointer is \<open>nil\<close> or the address of an allocated \<open>User\<close>, and a slice is a
  window (array, offset, length, capacity) on an allocated backing array.
\<close>

datatype ptr = nil | Ref nat

record slice =
  arr :: nat
  off :: nat
  len :: nat
  cap :: nat

text \<open>
  The state a call can see or change: the allocated users, the allocated backing arrays,
  and the field \<^verbatim>\<open>users\<close> of the one \<^verbatim>\<open>MemoryUserRepository\<close>. Its \<^verbatim>\<open>mutex\<close>
  is left out: calls are taken one at a time.
\<close>

record state =
  objs :: "User list"
  arrs :: "ptr list list"
  users :: slice

text \<open>
  What a call returns besides a value: an \<^verbatim>\<open>error\<close> built by \<^verbatim>\<open>errors.New\<close>
  (identified by its message), or a run-time panic (nil dereference, index out of range).
\<close>

datatype error = Error string | Panic

definition deref :: "state \<Rightarrow> ptr \<Rightarrow> User option" where
  "deref s p = (case p of nil \<Rightarrow> None
                | Ref n \<Rightarrow> if n < length (objs s) then Some (objs s ! n) else None)"

text \<open>\<^verbatim>\<open>&User{...}\<close>: a fresh object, never the address of an older one.\<close>

definition new_object :: "state \<Rightarrow> User \<Rightarrow> ptr \<times> state" where
  "new_object s u = (Ref (length (objs s)), s\<lparr>objs := objs s @ [u]\<rparr>)"

text \<open>\<^verbatim>\<open>*p = u\<close> on an allocated object.\<close>

definition assign_object :: "state \<Rightarrow> nat \<Rightarrow> User \<Rightarrow> state" where
  "assign_object s n u = s\<lparr>objs := (objs s)[n := u]\<rparr>"

definition array :: "state \<Rightarrow> nat \<Rightarrow> ptr list" where
  "array s a = (if a < length (arrs s) then arrs s ! a else [])"

text \<open>The elements a slice shows: positions \<open>off\<close> to \<open>off + len\<close> of its array.\<close>

definition elems :: "state \<Rightarrow> slice \<Rightarrow> ptr list" where
  "elems s sl = take (len sl) (drop (off sl) (array s (arr sl)))"

text \<open>Overwrite array \<open>a\<close> from position \<open>i\<close> on with the values \<open>vs\<close>.\<close>

definition write_array :: "state \<Rightarrow> nat \<Rightarrow> nat \<Rightarrow> ptr list \<Rightarrow> state" where
  "write_array s a i vs =
     s\<lparr>arrs := (arrs s)[a := take i (array s a) @ vs @ drop (i + length vs) (array s a)]\<rparr>"

text \<open>\<^verbatim>\<open>make([]*User, n)\<close>: a new array of \<open>n\<close> nil pointers.\<close>

definition go_make :: "state \<Rightarrow> nat \<Rightarrow> slice \<times> state" where
  "go_make s n =
     (\<lparr>arr = length (arrs s), off = 0, len = n, cap = n\<rparr>,
      s\<lparr>arrs := arrs s @ [replicate n nil]\<rparr>)"

text \<open>\<^verbatim>\<open>copy(dst, src)\<close>: the first \<open>min (len dst) (len src)\<close> elements.\<close>

definition go_copy :: "state \<Rightarrow> slice \<Rightarrow> slice \<Rightarrow> state" where
  "go_copy s dst src =
     write_array s (arr dst) (off dst) (take (min (len dst) (len src)) (elems s src))"

text \<open>
  \<^verbatim>\<open>sl[lo:hi]\<close>; Go panics unless \<open>lo \<le> hi \<le> cap\<close>.
\<close>

definition reslice :: "slice \<Rightarrow> nat \<Rightarrow> nat \<Rightarrow> slice option" where
  "reslice sl lo hi =
     (if lo \<le> hi \<and> hi \<le> cap sl
      then Some \<lparr>arr = arr sl, off = off sl + lo, len = hi - lo, cap = cap sl - lo\<rparr>
      else None)"

text \<open>
  \<^verbatim>\<open>sl[i] = v\<close>; Go panics unless \<open>i < len\<close>.
\<close>

definition store_index :: "state \<Rightarrow> slice \<Rightarrow> nat \<Rightarrow> ptr \<Rightarrow> state option" where
  "store_index s sl i v =
     (if i < len sl then Some (write_array s (arr sl) (off sl + i) [v]) else None)"

text \<open>
  \<^verbatim>\<open>append(sl, vs...)\<close>. When the values fit in the capacity they are written behind the
  slice in its own array. Otherwise the run-time system allocates a larger array and copies;
  how much larger is its choice, so the growth policy \<open>growslice\<close> (old capacity, needed
  length) is a parameter, and the new capacity is at least the needed length.
  The values are read before anything is written, as the overlapping case
  \<^verbatim>\<open>append(s[:i], s[i+1:]...)\<close> needs.
\<close>

definition go_append :: "(nat \<Rightarrow> nat \<Rightarrow> nat) \<Rightarrow> state \<Rightarrow> slice \<Rightarrow> ptr list \<Rightarrow> slice \<times> state" where
  "go_append growslice s sl vs =
     (let n = len sl + length vs in
      if n \<le> cap sl
      then (sl\<lparr>len := n\<rparr>, write_array s (arr sl) (off sl + len sl) vs)
      else
        (let c = max n (growslice (cap sl) n) in
         (\<lparr>arr = length (arrs s), off = 0, len = n, cap = c\<rparr>,
          s\<lparr>arrs := arrs s @ [elems s sl @ vs @ replicate (c - n) nil]\<rparr>)))"

section \<open>Entity functions\<close>

text \<open>
  \<^verbatim>\<open>NewUser\<close> takes its id from \<^verbatim>\<open>uuid.New().String()\<close>, a library outside the
  repository: the generated string is the parameter \<open>uuid\<close>.
\<close>

definition NewUser :: "state \<Rightarrow> string \<Rightarrow> string \<Rightarrow> string \<Rightarrow> ptr \<times> state" where
  "NewUser s uuid name email = new_object s \<lparr>ID = uuid, Name = name, Email = email\<rparr>"

definition NewUserWithID :: "state \<Rightarrow> string \<Rightarrow> string \<Rightarrow> string \<Rightarrow> ptr \<times> state" where
  "NewUserWithID s uid name email = new_object s \<lparr>ID = uid, Name = name, Email = email\<rparr>"

definition IsValid :: "state \<Rightarrow> ptr \<Rightarrow> error + bool" where
  "IsValid s u =
     (case deref s u of None \<Rightarrow> Inl Panic
      | Some x \<Rightarrow> Inr (Name x \<noteq> [] \<and> Email x \<noteq> []))"

definition UpdateName :: "state \<Rightarrow> ptr \<Rightarrow> string \<Rightarrow> (error + unit) \<times> state" where
  "UpdateName s u name =
     (case u of nil \<Rightarrow> (Inl Panic, s)
      | Ref n \<Rightarrow>
          (case deref s u of None \<Rightarrow> (Inl Panic, s)
           | Some x \<Rightarrow> (Inr (), assign_object s n (x\<lparr>Name := name\<rparr>))))"

definition UpdateEmail :: "state \<Rightarrow> ptr \<Rightarrow> string \<Rightarrow> (error + unit) \<times> state" where
  "UpdateEmail s u email =
     (case u of nil \<Rightarrow> (Inl Panic, s)
      | Ref n \<Rightarrow>
          (case deref s u of None \<Rightarrow> (Inl Panic, s)
           | Some x \<Rightarrow> (Inr (), assign_object s n (x\<lparr>Email := email\<rparr>))))"

section \<open>The in-memory repository (package persistence)\<close>

text \<open>
  \<^verbatim>\<open>NewMemoryUserRepository\<close>: an empty slice, then three sample users appended, each
  with a generated id.
\<close>

definition NewMemoryUserRepository ::
  "(nat \<Rightarrow> nat \<Rightarrow> nat) \<Rightarrow> state \<Rightarrow> string \<Rightarrow> string \<Rightarrow> string \<Rightarrow> state" where
  "NewMemoryUserRepository growslice s uuid1 uuid2 uuid3 =
     (let (sl0, s0) = go_make s 0;
          (u1, s1) = NewUser s0 uuid1 ''John Doe'' ''john@example.com'';
          (sl1, s1') = go_append growslice s1 sl0 [u1];
          (u2, s2) = NewUser s1' uuid2 ''Jane Smith'' ''jane@example.com'';
          (sl2, s2') = go_append growslice s2 sl1 [u2];
          (u3, s3) = NewUser s2' uuid3 ''Bob Johnson'' ''bob@example.com'';
          (sl3, s3') = go_append growslice s3 sl2 [u3]
      in s3'\<lparr>users := sl3\<rparr>)"

text \<open>
  \<^verbatim>\<open>GetAll\<close>: \<^verbatim>\<open>result := make([]*User, len(r.users)); copy(result, r.users)\<close>.
  The error it returns is always nil.
\<close>

definition GetAll :: "state \<Rightarrow> (error + slice) \<times> state" where
  "GetAll s =
     (let (result, s1) = go_make s (len (users s));
          s2 = go_copy s1 result (users s1)
      in (Inr result, s2))"

text \<open>
  \<^verbatim>\<open>GetByID\<close>: \<^verbatim>\<open>for _, user := range r.users { if user.ID == id { return user, nil } }\<close>,
  then \<^verbatim>\<open>errors.New("user not found")\<close>. Reading \<^verbatim>\<open>user.ID\<close> through a nil pointer
  panics. The function only reads.
\<close>

fun GetByID_loop :: "state \<Rightarrow> string \<Rightarrow> ptr list \<Rightarrow> error + ptr" where
  "GetByID_loop s uid [] = Inl (Error ''user not found'')"
| "GetByID_loop s uid (user # rest) =
     (case deref s user of None \<Rightarrow> Inl Panic
      | Some u \<Rightarrow> if ID u = uid then Inr user else GetByID_loop s uid rest)"

definition GetByID :: "state \<Rightarrow> string \<Rightarrow> error + ptr" where
  "GetByID s uid = GetByID_loop s uid (elems s (users s))"

text \<open>\<^verbatim>\<open>Create\<close>: \<^verbatim>\<open>r.users = append(r.users, user); return user, nil\<close>.\<close>

definition Create :: "(nat \<Rightarrow> nat \<Rightarrow> nat) \<Rightarrow> state \<Rightarrow> ptr \<Rightarrow> (error + ptr) \<times> state" where
  "Create growslice s user =
     (let (sl, s1) = go_append growslice s (users s) [user]
      in (Inr user, s1\<lparr>users := sl\<rparr>))"

text \<open>
  \<^verbatim>\<open>Update\<close>: \<^verbatim>\<open>for i, existingUser := range r.users { if existingUser.ID == user.ID
  { r.users[i] = user; return user, nil } }\<close>, then \<^verbatim>\<open>errors.New("user not found")\<close>.
  The argument \<open>i\<close> of the loop is the index of the head of the remaining elements.
\<close>

fun Update_loop :: "state \<Rightarrow> ptr \<Rightarrow> ptr list \<Rightarrow> nat \<Rightarrow> (error + ptr) \<times> state" where
  "Update_loop s user [] i = (Inl (Error ''user not found''), s)"
| "Update_loop s user (existingUser # rest) i =
     (case deref s existingUser of None \<Rightarrow> (Inl Panic, s)
      | Some e \<Rightarrow>
          (case deref s user of None \<Rightarrow> (Inl Panic, s)
           | Some u \<Rightarrow>
               if ID e = ID u
               then (case store_index s (users s) i user of None \<Rightarrow> (Inl Panic, s)
                     | Some s1 \<Rightarrow> (Inr user, s1))
               else Update_loop s user rest (Suc i)))"

definition Update :: "state \<Rightarrow> ptr \<Rightarrow> (error + ptr) \<times> state" where
  "Update s user = Update_loop s user (elems s (users s)) 0"

text \<open>
  \<^verbatim>\<open>Delete\<close>: \<^verbatim>\<open>for i, user := range r.users { if user.ID == id
  { r.users = append(r.users[:i], r.users[i+1:]...); return nil } }\<close>,
  then \<^verbatim>\<open>errors.New("user not found")\<close>.
\<close>

fun Delete_loop ::
  "(nat \<Rightarrow> nat \<Rightarrow> nat) \<Rightarrow> state \<Rightarrow> string \<Rightarrow> ptr list \<Rightarrow> nat \<Rightarrow> (error + unit) \<times> state" where
  "Delete_loop growslice s uid [] i = (Inl (Error ''user not found''), s)"
| "Delete_loop growslice s uid (user # rest) i =
     (case deref s user of None \<Rightarrow> (Inl Panic, s)
      | Some u \<Rightarrow>
          if ID u = uid
          then (case reslice (users s) 0 i of None \<Rightarrow> (Inl Panic, s)
                | Some front \<Rightarrow>
                    (case reslice (users s) (i + 1) (len (users s)) of None \<Rightarrow> (Inl Panic, s)
                     | Some back \<Rightarrow>
                         (let (sl, s1) = go_append growslice s front (elems s back)
                          in (Inr (), s1\<lparr>users := sl\<rparr>))))
          else Delete_loop growslice s uid rest (Suc i))"

definition Delete :: "(nat \<Rightarrow> nat \<Rightarrow> nat) \<Rightarrow> state \<Rightarrow> string \<Rightarrow> (error + unit) \<times> state" where
  "Delete growslice s uid = Delete_loop growslice s uid (elems s (users s)) 0"

section \<open>The user service (package services), on the in-memory repository\<close>

definition GetAllUsers :: "state \<Rightarrow> (error + slice) \<times> state" where
  "GetAllUsers s = GetAll s"

definition GetUserByID :: "state \<Rightarrow> string \<Rightarrow> error + ptr" where
  "GetUserByID s uid =
     (if uid = [] then Inl (Error ''invalid user ID'') else GetByID s uid)"

definition CreateUser ::
  "(nat \<Rightarrow> nat \<Rightarrow> nat) \<Rightarrow> state \<Rightarrow> string \<Rightarrow> string \<Rightarrow> string \<Rightarrow> (error + ptr) \<times> state" where
  "CreateUser growslice s uuid name email =
     (let (user, s1) = NewUser s uuid name email in
      case IsValid s1 user of Inl e \<Rightarrow> (Inl e, s1)
      | Inr ok \<Rightarrow>
          if \<not> ok
          then (Inl (Error ''invalid user data: name and email are required''), s1)
          else Create growslice s1 user)"

definition UpdateUser :: "state \<Rightarrow> string \<Rightarrow> string \<Rightarrow> string \<Rightarrow> (error + ptr) \<times> state" where
  "UpdateUser s uid name email =
     (if uid = [] then (Inl (Error ''invalid user ID''), s)
      else if name = [] \<or> email = []
      then (Inl (Error ''invalid user data: name and email are required''), s)
      else
        (case GetByID s uid of Inl err \<Rightarrow> (Inl err, s)
         | Inr existingUser \<Rightarrow>
             if existingUser = nil then (Inl (Error ''user not found''), s)
             else
               (case UpdateName s existingUser name of (Inl e, s1) \<Rightarrow> (Inl e, s1)
                | (Inr _, s1) \<Rightarrow>
                    (case UpdateEmail s1 existingUser email of (Inl e, s2) \<Rightarrow> (Inl e, s2)
                     | (Inr _, s2) \<Rightarrow>
                         (case IsValid s2 existingUser of Inl e \<Rightarrow> (Inl e, s2)
                          | Inr ok \<Rightarrow>
                              if \<not> ok
                              then (Inl (Error ''invalid user data: name and email are required''), s2)
                              else Update s2 existingUser)))))"

definition DeleteUser :: "(nat \<Rightarrow> nat \<Rightarrow> nat) \<Rightarrow> state \<Rightarrow> string \<Rightarrow> (error + unit) \<times> state" where
  "DeleteUser growslice s uid =
     (if uid = [] then (Inl (Error ''invalid user ID''), s)
      else
        (case GetByID s uid of Inl err \<Rightarrow> (Inl err, s)
         | Inr existingUser \<Rightarrow>
             if existingUser = nil then (Inl (Error ''user not found''), s)
             else Delete growslice s uid))"


section \<open>Observations and the invariant of reachable states\<close>

text \<open>The pointers the repository holds, in order, and the users they point to.\<close>

definition ptrs :: "state \<Rightarrow> ptr list" where
  "ptrs s = elems s (users s)"

definition load :: "state \<Rightarrow> ptr list \<Rightarrow> User list" where
  "load s ps = concat (map (\<lambda>p. case deref s p of None \<Rightarrow> [] | Some u \<Rightarrow> [u]) ps)"

definition records :: "state \<Rightarrow> User list" where
  "records s = load s (ptrs s)"

text \<open>The pointer \<open>p\<close> points to a user whose \<^verbatim>\<open>ID\<close> is \<open>uid\<close>.\<close>

definition has_id :: "state \<Rightarrow> string \<Rightarrow> ptr \<Rightarrow> bool" where
  "has_id s uid p = (case deref s p of None \<Rightarrow> False | Some u \<Rightarrow> ID u = uid)"

text \<open>
  What Go guarantees of every slice (its window lies inside an allocated array), and what
  holds of the repository as long as no caller hands it a nil pointer: every element of
  \<^verbatim>\<open>r.users\<close> points to a user.
\<close>

definition valid_slice :: "state \<Rightarrow> slice \<Rightarrow> bool" where
  "valid_slice s sl =
     (arr sl < length (arrs s) \<and> len sl \<le> cap sl \<and> off sl + cap sl \<le> length (array s (arr sl)))"

definition well_formed :: "state \<Rightarrow> bool" where
  "well_formed s = (valid_slice s (users s) \<and> list_all (\<lambda>p. deref s p \<noteq> None) (ptrs s))"

text \<open>The two conditions of section 7 of the specification, as the messages the code uses.\<close>

definition NotFound :: error where
  "NotFound = Error ''user not found''"

definition ValidationError :: "error \<Rightarrow> bool" where
  "ValidationError e =
     (e = Error ''invalid user ID'' \<or> e = Error ''invalid user data: name and email are required'')"


text \<open>
  The round trip of section 8 of the specification: \<^verbatim>\<open>CreateUser\<close>, then
  \<^verbatim>\<open>GetUserByID\<close> with the id of the created user, gives a user equal to the created
  one in every field.
\<close>

definition create_then_get ::
  "(nat \<Rightarrow> nat \<Rightarrow> nat) \<Rightarrow> state \<Rightarrow> string \<Rightarrow> string \<Rightarrow> string \<Rightarrow> bool" where
  "create_then_get growslice s uuid name email =
     (case CreateUser growslice s uuid name email of
        (Inl e, s') \<Rightarrow> False
      | (Inr created, s') \<Rightarrow>
          (case deref s' created of None \<Rightarrow> False
           | Some c \<Rightarrow>
               (case GetUserByID s' (ID c) of Inl e \<Rightarrow> False
                | Inr got \<Rightarrow>
                    (case deref s' got of None \<Rightarrow> False
                     | Some r \<Rightarrow> ID r = ID c \<and> Name r = Name c \<and> Email r = Email c))))"

subsection \<open>Concrete states for the examples\<close>

text \<open>A growth policy: double the capacity.\<close>

definition double :: "nat \<Rightarrow> nat \<Rightarrow> nat" where
  "double c n = 2 * c"

text \<open>
  Three users in an array of capacity four, and a fourth user object, with an empty id, that
  the repository does not hold.
\<close>

definition three_users :: state where
  "three_users =
     \<lparr>objs = [\<lparr>ID = ''1'', Name = ''John Doe'', Email = ''john@example.com''\<rparr>,
              \<lparr>ID = ''2'', Name = ''Jane Smith'', Email = ''jane@example.com''\<rparr>,
              \<lparr>ID = ''3'', Name = ''Bob Johnson'', Email = ''bob@example.com''\<rparr>,
              \<lparr>ID = [], Name = ''Eve'', Email = ''eve@example.com''\<rparr>],
      arrs = [[Ref 0, Ref 1, Ref 2, nil]],
      users = \<lparr>arr = 0, off = 0, len = 3, cap = 4\<rparr>\<rparr>"

text \<open>
  Three users, the second and the third with the same id, in a full array, and a fourth user
  object with that id that the repository does not hold.
\<close>

definition twins :: state where
  "twins =
     \<lparr>objs = [\<lparr>ID = ''8'', Name = ''Ben'', Email = ''ben@example.com''\<rparr>,
              \<lparr>ID = ''7'', Name = ''Ann'', Email = ''ann@example.com''\<rparr>,
              \<lparr>ID = ''7'', Name = ''Cy'', Email = ''cy@example.com''\<rparr>,
              \<lparr>ID = ''7'', Name = ''Dee'', Email = ''dee@example.com''\<rparr>],
      arrs = [[Ref 0, Ref 1, Ref 2]],
      users = \<lparr>arr = 0, off = 0, len = 3, cap = 3\<rparr>\<rparr>"

text \<open>One user, whose id has the form of a generated one.\<close>

definition one_user :: state where
  "one_user =
     \<lparr>objs = [\<lparr>ID = ''3f2b8c1e-5d4a-4e6f-9a7b-0c1d2e3f4a5b'', Name = ''Ann'',
               Email = ''ann@example.com''\<rparr>],
      arrs = [[Ref 0]],
      users = \<lparr>arr = 0, off = 0, len = 1, cap = 1\<rparr>\<rparr>"

section \<open>Memory lemmas\<close>


lemma array_write_array_same:
  "a < length (arrs s) \<Longrightarrow>
   array (write_array s a i vs) a = take i (array s a) @ vs @ drop (i + length vs) (array s a)"
  by (simp add: array_def write_array_def)

lemma array_write_array_other:
  "a' \<noteq> a \<Longrightarrow> array (write_array s a i vs) a' = array s a'"
  by (simp add: array_def write_array_def)

lemma objs_write_array [simp]: "objs (write_array s a i vs) = objs s"
  by (simp add: write_array_def)

lemma users_write_array [simp]: "users (write_array s a i vs) = users s"
  by (simp add: write_array_def)

lemma length_arrs_write_array [simp]: "length (arrs (write_array s a i vs)) = length (arrs s)"
  by (simp add: write_array_def)

lemma deref_cong: "objs s' = objs s \<Longrightarrow> deref s' p = deref s p"
  unfolding deref_def by (cases p) simp_all

lemma load_cong: "objs s' = objs s \<Longrightarrow> load s' ps = load s ps"
  using deref_cong [of s' s] by (simp add: load_def)

lemma has_id_cong: "objs s' = objs s \<Longrightarrow> has_id s' uid p = has_id s uid p"
  using deref_cong [of s' s] by (simp add: has_id_def)

lemma load_append [simp]: "load s (xs @ ys) = load s xs @ load s ys"
  by (simp add: load_def)

lemma load_Some: "deref s p = Some u \<Longrightarrow> load s [p] = [u]"
  by (simp add: load_def)

lemma length_load: "list_all (\<lambda>p. deref s p \<noteq> None) ps \<Longrightarrow> length (load s ps) = length ps"
  by (induction ps) (auto simp: load_def)

text \<open>The three scans find the first element with the id.\<close>

lemma GetByID_loop_absent:
  "list_all (\<lambda>p. deref s p \<noteq> None) ps \<Longrightarrow> \<forall>p\<in>set ps. \<not> has_id s uid p \<Longrightarrow>
   GetByID_loop s uid ps = Inl (Error ''user not found'')"
  by (induction ps) (auto simp: has_id_def split: option.splits)

lemma GetByID_loop_first:
  "list_all (\<lambda>p. deref s p \<noteq> None) xs \<Longrightarrow> \<forall>q\<in>set xs. \<not> has_id s uid q \<Longrightarrow> has_id s uid p \<Longrightarrow>
   GetByID_loop s uid (xs @ p # ys) = Inr p"
  by (induction xs) (auto simp: has_id_def split: option.splits)

lemma Update_loop_absent:
  "list_all (\<lambda>p. deref s p \<noteq> None) ps \<Longrightarrow> \<forall>p\<in>set ps. \<not> has_id s (ID u) p \<Longrightarrow> deref s user = Some u \<Longrightarrow>
   Update_loop s user ps i = (Inl (Error ''user not found''), s)"
  by (induction ps arbitrary: i) (auto simp: has_id_def split: option.splits)

lemma Update_loop_first:
  "list_all (\<lambda>p. deref s p \<noteq> None) xs \<Longrightarrow> \<forall>q\<in>set xs. \<not> has_id s (ID u) q \<Longrightarrow> has_id s (ID u) p \<Longrightarrow>
   deref s user = Some u \<Longrightarrow>
   Update_loop s user (xs @ p # ys) i =
     (case store_index s (users s) (i + length xs) user of None \<Rightarrow> (Inl Panic, s)
      | Some s1 \<Rightarrow> (Inr user, s1))"
  by (induction xs arbitrary: i) (auto simp: has_id_def split: option.splits)

lemma Delete_loop_absent:
  "list_all (\<lambda>p. deref s p \<noteq> None) ps \<Longrightarrow> \<forall>p\<in>set ps. \<not> has_id s uid p \<Longrightarrow>
   Delete_loop g s uid ps i = (Inl (Error ''user not found''), s)"
  by (induction ps arbitrary: i) (auto simp: has_id_def split: option.splits)

lemma Delete_loop_first:
  "list_all (\<lambda>p. deref s p \<noteq> None) xs \<Longrightarrow> \<forall>q\<in>set xs. \<not> has_id s uid q \<Longrightarrow> has_id s uid p \<Longrightarrow>
   Delete_loop g s uid (xs @ p # ys) i =
     (case reslice (users s) 0 (i + length xs) of None \<Rightarrow> (Inl Panic, s)
      | Some front \<Rightarrow>
          (case reslice (users s) (i + length xs + 1) (len (users s)) of None \<Rightarrow> (Inl Panic, s)
           | Some back \<Rightarrow>
               (let (sl, s1) = go_append g s front (elems s back)
                in (Inr (), s1\<lparr>users := sl\<rparr>))))"
  by (induction xs arbitrary: i) (auto simp: has_id_def split: option.splits)


text \<open>Slices and their arrays.\<close>

lemma length_elems: "valid_slice s sl \<Longrightarrow> length (elems s sl) = len sl"
  by (auto simp: valid_slice_def elems_def)

lemma take_drop_overwrite:
  "k + i \<le> length A \<Longrightarrow>
   take (i + length vs) (drop k (take (k + i) A @ vs @ rest)) = take i (drop k A) @ vs"
proof -
  assume h: "k + i \<le> length A"
  have l: "length (take i (drop k A)) = i"
    using h by simp
  have "drop k (take (k + i) A @ vs @ rest) = drop k (take (k + i) A) @ vs @ rest"
    using h by simp
  also have "drop k (take (k + i) A) = take i (drop k A)"
    by (simp add: drop_take)
  finally have "take (i + length vs) (drop k (take (k + i) A @ vs @ rest))
      = take (i + length vs) (take i (drop k A) @ vs @ rest)"
    by simp
  also have "\<dots> = take i (drop k A) @ vs"
    using l by (simp del: length_take length_drop)
  finally show ?thesis .
qed

lemma take_drop_update:
  "k + i < length A \<Longrightarrow>
   take n (drop k (take (k + i) A @ [v] @ drop (k + i + length [v]) A))
     = (take n (drop k A))[i := v]"
proof -
  assume h: "k + i < length A"
  have "take (k + i) A @ [v] @ drop (k + i + length [v]) A = A[k + i := v]"
    using h by (simp add: upd_conv_take_nth_drop)
  then show ?thesis
    by (simp add: drop_update_swap take_update_swap)
qed

lemma elems_store_index:
  assumes "valid_slice s sl" "i < len sl"
  shows "elems (write_array s (arr sl) (off sl + i) [v]) sl = (elems s sl)[i := v]"
proof -
  have a: "arr sl < length (arrs s)" and b: "off sl + i < length (array s (arr sl))"
    using assms by (auto simp: valid_slice_def)
  show ?thesis
    unfolding elems_def array_write_array_same [OF a]
    by (rule take_drop_update [OF b])
qed

lemma go_append_elems:
  assumes "valid_slice s sl" "go_append g s sl vs = (sl', s')"
  shows "elems s' sl' = elems s sl @ vs"
proof (cases "len sl + length vs \<le> cap sl")
  case True
  have a: "arr sl < length (arrs s)" and b: "off sl + len sl \<le> length (array s (arr sl))"
    using assms(1) by (auto simp: valid_slice_def)
  have sl': "sl' = sl\<lparr>len := len sl + length vs\<rparr>"
    and s': "s' = write_array s (arr sl) (off sl + len sl) vs"
    using assms(2) True by (auto simp: go_append_def Let_def)
  have "elems s' sl' = take (len sl + length vs) (drop (off sl) (array s' (arr sl)))"
    by (simp add: elems_def sl')
  also have "array s' (arr sl) = take (off sl + len sl) (array s (arr sl)) @ vs @
      drop (off sl + len sl + length vs) (array s (arr sl))"
    unfolding s' by (rule array_write_array_same [OF a])
  also have "take (len sl + length vs) (drop (off sl) \<dots>)
      = take (len sl) (drop (off sl) (array s (arr sl))) @ vs"
    by (rule take_drop_overwrite [OF b])
  finally show ?thesis
    by (simp add: elems_def)
next
  case False
  then show ?thesis
    using assms length_elems [OF assms(1)]
    by (auto simp: go_append_def Let_def elems_def array_def)
qed

lemma go_append_objs: "go_append g s sl vs = (sl', s') \<Longrightarrow> objs s' = objs s"
  by (auto simp: go_append_def Let_def split: if_splits)

lemma go_append_valid:
  assumes "valid_slice s sl" "go_append g s sl vs = (sl', s')"
  shows "valid_slice s' sl'"
proof (cases "len sl + length vs \<le> cap sl")
  case True
  have a: "arr sl < length (arrs s)"
    using assms(1) by (auto simp: valid_slice_def)
  have sl': "sl' = sl\<lparr>len := len sl + length vs\<rparr>"
    and s': "s' = write_array s (arr sl) (off sl + len sl) vs"
    using assms(2) True by (auto simp: go_append_def Let_def)
  show ?thesis
    unfolding sl' s' valid_slice_def using array_write_array_same [OF a] assms(1) True
    by (auto simp: valid_slice_def)
next
  case False
  then show ?thesis
    using assms length_elems [OF assms(1)]
    by (auto simp: go_append_def Let_def valid_slice_def array_def)
qed


lemma elems_users_update [simp]: "elems (s\<lparr>users := x\<rparr>) sl = elems s sl"
  by (simp add: elems_def array_def)

lemma valid_slice_users_update [simp]: "valid_slice (s\<lparr>users := x\<rparr>) sl = valid_slice s sl"
  by (simp add: valid_slice_def array_def)

lemma reslice_elems:
  assumes "reslice sl lo hi = Some sl'" "hi \<le> len sl"
  shows "elems s sl' = drop lo (take hi (elems s sl))"
proof -
  have sl': "sl' = \<lparr>arr = arr sl, off = off sl + lo, len = hi - lo, cap = cap sl - lo\<rparr>"
    using assms(1) by (simp add: reslice_def split: if_splits)
  have "take hi (elems s sl) = take hi (drop (off sl) (array s (arr sl)))"
    using assms(2) by (simp add: elems_def min_def)
  then show ?thesis
    by (simp add: sl' elems_def drop_take add.commute)
qed

lemma reslice_valid:
  assumes "valid_slice s sl" "reslice sl lo hi = Some sl'"
  shows "valid_slice s sl'"
  using assms by (auto simp: reslice_def valid_slice_def split: if_splits)

lemma reslice_Some:
  "lo \<le> hi \<Longrightarrow> hi \<le> cap sl \<Longrightarrow> \<exists>sl'. reslice sl lo hi = Some sl'"
  by (simp add: reslice_def)

text \<open>The repository's operations on a well-formed state.\<close>

lemma Create_result:
  assumes "valid_slice s (users s)"
  shows "\<exists>s'. Create g s user = (Inr user, s') \<and> ptrs s' = ptrs s @ [user]
           \<and> objs s' = objs s \<and> valid_slice s' (users s')"
proof -
  obtain sl s1 where ap: "go_append g s (users s) [user] = (sl, s1)"
    by (cases "go_append g s (users s) [user]") 
  have "Create g s user = (Inr user, s1\<lparr>users := sl\<rparr>)"
    by (simp add: Create_def ap)
  moreover have "ptrs (s1\<lparr>users := sl\<rparr>) = ptrs s @ [user]"
    using go_append_elems [OF assms ap] by (simp add: ptrs_def)
  moreover have "objs (s1\<lparr>users := sl\<rparr>) = objs s"
    using go_append_objs [OF ap] by simp
  moreover have "valid_slice (s1\<lparr>users := sl\<rparr>) (users (s1\<lparr>users := sl\<rparr>))"
    using go_append_valid [OF assms ap] by simp
  ultimately show ?thesis by blast
qed

lemma well_formed_ptrs:
  "well_formed s \<Longrightarrow> ptrs s = xs @ p # ys \<Longrightarrow>
   length xs < len (users s) \<and> list_all (\<lambda>q. deref s q \<noteq> None) xs"
  using length_elems [of s "users s"] by (auto simp: well_formed_def ptrs_def)

lemma Update_result:
  assumes wf: "well_formed s" and split: "ptrs s = xs @ p # ys"
    and before: "\<forall>q\<in>set xs. \<not> has_id s (ID u) q" and here: "has_id s (ID u) p"
    and user: "deref s user = Some u"
  shows "\<exists>s'. Update s user = (Inr user, s') \<and> ptrs s' = xs @ user # ys
           \<and> objs s' = objs s \<and> users s' = users s \<and> valid_slice s' (users s')"
proof -
  let ?s' = "write_array s (arr (users s)) (off (users s) + length xs) [user]"
  have vs: "valid_slice s (users s)"
    using wf by (simp add: well_formed_def)
  have i: "length xs < len (users s)" and all: "list_all (\<lambda>q. deref s q \<noteq> None) xs"
    using well_formed_ptrs [OF wf split] by simp_all
  have "Update s user = (Inr user, ?s')"
    using Update_loop_first [OF all before here user, of ys 0] i split
    by (simp add: Update_def ptrs_def store_index_def)
  moreover have "ptrs ?s' = xs @ user # ys"
    using elems_store_index [OF vs i, of user] split by (simp add: ptrs_def)
  moreover have "valid_slice ?s' (users ?s')"
    using vs by (auto simp: valid_slice_def array_write_array_same)
  ultimately show ?thesis by simp
qed

lemma Delete_result:
  assumes wf: "well_formed s" and split: "ptrs s = xs @ p # ys"
    and before: "\<forall>q\<in>set xs. \<not> has_id s uid q" and here: "has_id s uid p"
  shows "\<exists>s'. Delete g s uid = (Inr (), s') \<and> ptrs s' = xs @ ys
           \<and> objs s' = objs s \<and> valid_slice s' (users s')"
proof -
  have vs: "valid_slice s (users s)"
    using wf by (simp add: well_formed_def)
  have i: "length xs < len (users s)" and all: "list_all (\<lambda>q. deref s q \<noteq> None) xs"
    using well_formed_ptrs [OF wf split] by simp_all
  have c: "len (users s) \<le> cap (users s)"
    using vs by (simp add: valid_slice_def)
  obtain front where front: "reslice (users s) 0 (length xs) = Some front"
    using reslice_Some [of 0 "length xs" "users s"] i c by auto
  obtain rest where rs: "reslice (users s) (length xs + 1) (len (users s)) = Some rest"
    using reslice_Some [of "length xs + 1" "len (users s)" "users s"] i c by auto
  have ef: "elems s front = xs"
    using reslice_elems [OF front, of s] i split by (simp add: ptrs_def)
  have eb: "elems s rest = ys"
    using reslice_elems [OF rs, of s] length_elems [OF vs] split by (simp add: ptrs_def)
  have vf: "valid_slice s front"
    by (rule reslice_valid [OF vs front])
  obtain sl s1 where ap: "go_append g s front ys = (sl, s1)"
    by (cases "go_append g s front ys")
  have "Delete g s uid = (Inr (), s1\<lparr>users := sl\<rparr>)"
    using Delete_loop_first [OF all before here, of g ys 0] split front rs eb ap
    by (simp add: Delete_def ptrs_def)
  moreover have "ptrs (s1\<lparr>users := sl\<rparr>) = xs @ ys"
    using go_append_elems [OF vf ap] ef by (simp add: ptrs_def)
  moreover have "objs (s1\<lparr>users := sl\<rparr>) = objs s"
    using go_append_objs [OF ap] by simp
  moreover have "valid_slice (s1\<lparr>users := sl\<rparr>) (users (s1\<lparr>users := sl\<rparr>))"
    using go_append_valid [OF vf ap] by simp
  ultimately show ?thesis by blast
qed



lemma present_iff_load:
  "list_all (\<lambda>p. deref s p \<noteq> None) ps \<Longrightarrow>
   (uid \<in> ID ` set (load s ps)) = (\<exists>p\<in>set ps. has_id s uid p)"
  by (induction ps) (auto simp: load_def has_id_def)

lemma present_iff:
  "well_formed s \<Longrightarrow> (uid \<in> ID ` set (records s)) = (\<exists>p\<in>set (ptrs s). has_id s uid p)"
  using present_iff_load [of s "ptrs s" uid] by (simp add: well_formed_def records_def)

text \<open>The concrete states.\<close>

lemma well_formed_three_users: "well_formed three_users"
  by (simp add: well_formed_def valid_slice_def three_users_def ptrs_def elems_def
      array_def deref_def)

lemma well_formed_twins: "well_formed twins"
  by (simp add: well_formed_def valid_slice_def twins_def ptrs_def elems_def
      array_def deref_def)

lemma ptrs_three_users: "ptrs three_users = [Ref 0, Ref 1, Ref 2]"
  by (simp add: ptrs_def elems_def array_def three_users_def)

lemma ptrs_twins: "ptrs twins = [Ref 0, Ref 1, Ref 2]"
  by (simp add: ptrs_def elems_def array_def twins_def)

lemma records_three_users: "records three_users = take 3 (objs three_users)"
  by (simp add: records_def load_def ptrs_three_users deref_def) (simp add: three_users_def)

lemma records_twins: "records twins = take 3 (objs twins)"
  by (simp add: records_def load_def ptrs_twins deref_def) (simp add: twins_def)

text \<open>An id that no record has: the three scans run to the end.\<close>

lemma absent_results:
  assumes "well_formed s" and "uid \<notin> ID ` set (records s)"
  shows "GetByID s uid = Inl NotFound \<and>
         Delete g s uid = (Inl NotFound, s) \<and>
         (\<forall>user u. deref s user = Some u \<and> ID u = uid \<longrightarrow> Update s user = (Inl NotFound, s))"
proof -
  have all: "list_all (\<lambda>p. deref s p \<noteq> None) (ptrs s)"
    using assms(1) by (simp add: well_formed_def)
  have none: "\<forall>p\<in>set (ptrs s). \<not> has_id s uid p"
    using assms present_iff by blast
  have "GetByID s uid = Inl NotFound"
    using GetByID_loop_absent [OF all none] by (simp add: GetByID_def ptrs_def NotFound_def)
  moreover have "Delete g s uid = (Inl NotFound, s)"
    using Delete_loop_absent [OF all none] by (simp add: Delete_def ptrs_def NotFound_def)
  moreover have "deref s user = Some u \<Longrightarrow> ID u = uid \<Longrightarrow> Update s user = (Inl NotFound, s)"
    for user u
    using Update_loop_absent [OF all, of u user 0] none
    by (simp add: Update_def ptrs_def NotFound_def)
  ultimately show ?thesis by blast
qed

lemma first_match:
  assumes "well_formed s" "uid \<in> ID ` set (records s)"
  shows "\<exists>xs p ys. ptrs s = xs @ p # ys \<and> has_id s uid p \<and> (\<forall>q\<in>set xs. \<not> has_id s uid q)"
proof -
  have "\<exists>p\<in>set (ptrs s). has_id s uid p"
    using assms present_iff by blast
  then show ?thesis
    by (rule split_list_first_prop)
qed

lemma has_id_deref: "has_id s uid p \<Longrightarrow> \<exists>u. deref s p = Some u \<and> ID u = uid"
  by (auto simp: has_id_def split: option.splits)

lemma load_Cons_Some: "deref s p = Some u \<Longrightarrow> load s (p # ps) = u # load s ps"
  by (simp add: load_def)

lemma well_formedI:
  "valid_slice s' (users s') \<Longrightarrow> objs s' = objs s \<Longrightarrow>
   list_all (\<lambda>p. deref s p \<noteq> None) (ptrs s') \<Longrightarrow> well_formed s'"
  using deref_cong [of s' s] by (simp add: well_formed_def)

text \<open>\<^verbatim>\<open>GetAll\<close> copies into an array of its own.\<close>

lemma elems_write_array_other:
  "arr sl \<noteq> a \<Longrightarrow> elems (write_array s a i vs) sl = elems s sl"
  by (simp add: elems_def array_write_array_other)

lemma elems_new_array:
  "arr sl < length (arrs s) \<Longrightarrow> elems (s\<lparr>arrs := arrs s @ [A]\<rparr>) sl = elems s sl"
  by (simp add: elems_def array_def nth_append)

lemma GetAll_result:
  assumes vs: "valid_slice s (users s)"
  shows "\<exists>result s'. GetAll s = (Inr result, s') \<and> elems s' result = ptrs s \<and>
           ptrs s' = ptrs s \<and> objs s' = objs s \<and> users s' = users s \<and>
           valid_slice s' result \<and> arr result \<noteq> arr (users s)"
proof -
  let ?n = "len (users s)"
  let ?a = "length (arrs s)"
  let ?result = "\<lparr>arr = ?a, off = 0, len = ?n, cap = ?n\<rparr>"
  let ?s1 = "s\<lparr>arrs := arrs s @ [replicate ?n nil]\<rparr>"
  let ?s2 = "write_array ?s1 ?a 0 (ptrs s)"
  have a: "arr (users s) < ?a"
    using vs by (simp add: valid_slice_def)
  have n: "length (ptrs s) = ?n"
    using length_elems [OF vs] by (simp add: ptrs_def)
  have e1: "elems ?s1 (users s) = ptrs s"
    using elems_new_array [OF a] by (simp add: ptrs_def)
  have g: "GetAll s = (Inr ?result, ?s2)"
    using e1 n by (simp add: GetAll_def go_make_def go_copy_def)
  have arr2: "array ?s2 ?a = ptrs s"
    using array_write_array_same [of ?a ?s1 0 "ptrs s"] n by (simp add: array_def)
  have "elems ?s2 ?result = ptrs s"
    using arr2 n by (simp add: elems_def)
  moreover have "ptrs ?s2 = ptrs s"
    using elems_write_array_other [of "users s" ?a ?s1 0 "ptrs s"] a e1 by (simp add: ptrs_def)
  moreover have "valid_slice ?s2 ?result"
    using arr2 n by (simp add: valid_slice_def)
  ultimately show ?thesis
    using g a by auto
qed

text \<open>What a scan returns: a pointer to an allocated user with the id, or the error of the other scans.\<close>

lemma GetByID_loop_Inr:
  "GetByID_loop s uid ps = Inr p \<Longrightarrow> \<exists>n u. p = Ref n \<and> n < length (objs s) \<and> deref s p = Some u \<and> ID u = uid"
proof (induction ps)
  case Nil
  then show ?case by simp
next
  case (Cons q ps)
  show ?case
  proof (cases "deref s q")
    case None
    then show ?thesis using Cons.prems by simp
  next
    case (Some u)
    show ?thesis
    proof (cases "ID u = uid")
      case True
      then have "p = q" using Cons.prems Some by simp
      then show ?thesis
        using Some True by (cases q) (auto simp: deref_def split: if_splits)
    next
      case False
      then show ?thesis using Cons Some by simp
    qed
  qed
qed

lemma GetByID_loop_Inl_Delete_loop:
  "GetByID_loop s uid ps = Inl e \<Longrightarrow> Delete_loop g s uid ps i = (Inl e, s)"
  by (induction ps arbitrary: i) (auto split: option.splits if_splits)

text \<open>Objects: assignment and allocation.\<close>

lemma deref_assign_object:
  "n < length (objs s) \<Longrightarrow> deref (assign_object s n u) (Ref n) = Some u"
  by (simp add: deref_def assign_object_def)

lemma deref_new_object:
  "deref (s\<lparr>objs := objs s @ [c]\<rparr>) q =
     (if q = Ref (length (objs s)) then Some c else deref s q)"
  by (cases q) (auto simp: deref_def nth_append)

lemma deref_allocated: "deref s q \<noteq> None \<Longrightarrow> q \<noteq> Ref (length (objs s))"
  by (auto simp: deref_def)

lemma CreateUser_valid:
  assumes "name \<noteq> []" and "email \<noteq> []"
  shows "CreateUser g s uuid name email =
           Create g (s\<lparr>objs := objs s @ [\<lparr>ID = uuid, Name = name, Email = email\<rparr>]\<rparr>)
             (Ref (length (objs s)))"
  using assms by (simp add: CreateUser_def NewUser_def new_object_def IsValid_def deref_new_object)

text \<open>The constructor gives a well-formed state with the three sample users.\<close>

lemma valid_slice_objs_update [simp]: "valid_slice (s\<lparr>objs := x\<rparr>) sl = valid_slice s sl"
  by (simp add: valid_slice_def array_def)

lemma elems_objs_update [simp]: "elems (s\<lparr>objs := x\<rparr>) sl = elems s sl"
  by (simp add: elems_def array_def)

lemma go_make_valid: "go_make s n = (sl, s') \<Longrightarrow> valid_slice s' sl \<and> objs s' = objs s"
  by (auto simp: go_make_def valid_slice_def array_def)

lemma NewMemoryUserRepository_result:
  "\<exists>s'. NewMemoryUserRepository g s uuid1 uuid2 uuid3 = s' \<and> valid_slice s' (users s') \<and>
     ptrs s' = [Ref (length (objs s)), Ref (length (objs s) + 1), Ref (length (objs s) + 2)] \<and>
     objs s' = objs s @
       [\<lparr>ID = uuid1, Name = ''John Doe'', Email = ''john@example.com''\<rparr>,
        \<lparr>ID = uuid2, Name = ''Jane Smith'', Email = ''jane@example.com''\<rparr>,
        \<lparr>ID = uuid3, Name = ''Bob Johnson'', Email = ''bob@example.com''\<rparr>]"
proof -
  obtain sl0 s0 where m: "go_make s 0 = (sl0, s0)"
    by (cases "go_make s 0")
  have v0: "valid_slice s0 sl0" and o0: "objs s0 = objs s" and e0: "elems s0 sl0 = []"
    using m by (auto simp: go_make_def valid_slice_def array_def elems_def)
  let ?u1 = "\<lparr>ID = uuid1, Name = ''John Doe'', Email = ''john@example.com''\<rparr>"
  let ?u2 = "\<lparr>ID = uuid2, Name = ''Jane Smith'', Email = ''jane@example.com''\<rparr>"
  let ?u3 = "\<lparr>ID = uuid3, Name = ''Bob Johnson'', Email = ''bob@example.com''\<rparr>"
  let ?n = "length (objs s)"
  let ?s1 = "s0\<lparr>objs := objs s0 @ [?u1]\<rparr>"
  obtain sl1 s1' where a1: "go_append g ?s1 sl0 [Ref ?n] = (sl1, s1')"
    by (cases "go_append g ?s1 sl0 [Ref ?n]")
  have v1: "valid_slice s1' sl1" and e1: "elems s1' sl1 = [Ref ?n]" and o1: "objs s1' = objs s @ [?u1]"
    using go_append_valid [OF _ a1] go_append_elems [OF _ a1] go_append_objs [OF a1] v0 e0 o0
    by simp_all
  let ?s2 = "s1'\<lparr>objs := objs s1' @ [?u2]\<rparr>"
  obtain sl2 s2' where a2: "go_append g ?s2 sl1 [Ref (?n + 1)] = (sl2, s2')"
    by (cases "go_append g ?s2 sl1 [Ref (?n + 1)]")
  have v2: "valid_slice s2' sl2" and e2: "elems s2' sl2 = [Ref ?n, Ref (?n + 1)]"
    and o2: "objs s2' = objs s @ [?u1, ?u2]"
    using go_append_valid [OF _ a2] go_append_elems [OF _ a2] go_append_objs [OF a2] v1 e1 o1
    by simp_all
  let ?s3 = "s2'\<lparr>objs := objs s2' @ [?u3]\<rparr>"
  obtain sl3 s3' where a3: "go_append g ?s3 sl2 [Ref (?n + 2)] = (sl3, s3')"
    by (cases "go_append g ?s3 sl2 [Ref (?n + 2)]")
  have v3: "valid_slice s3' sl3" and e3: "elems s3' sl3 = [Ref ?n, Ref (?n + 1), Ref (?n + 2)]"
    and o3: "objs s3' = objs s @ [?u1, ?u2, ?u3]"
    using go_append_valid [OF _ a3] go_append_elems [OF _ a3] go_append_objs [OF a3] v2 e2 o2
    by simp_all
  have "NewMemoryUserRepository g s uuid1 uuid2 uuid3 = s3'\<lparr>users := sl3\<rparr>"
    using m a1 a2 a3 o0 o1 o2
    by (simp add: NewMemoryUserRepository_def NewUser_def new_object_def)
  then show ?thesis
    using v3 e3 o3 by (simp add: ptrs_def)
qed

lemma well_formed_NewMemoryUserRepository:
  "well_formed (NewMemoryUserRepository g s uuid1 uuid2 uuid3)"
  using NewMemoryUserRepository_result [of g s uuid1 uuid2 uuid3]
  by (auto simp: well_formed_def deref_def nth_append)

text \<open>
  The copy that \<^verbatim>\<open>GetAll\<close> makes is a copy of the pointers: the users are shared with the
  repository, and a write through a returned pointer is seen by the repository.
\<close>

lemma GetAll_shares_users:
  "fst (GetAll three_users) = Inr \<lparr>arr = 1, off = 0, len = 3, cap = 3\<rparr> \<and>
   elems (snd (GetAll three_users)) \<lparr>arr = 1, off = 0, len = 3, cap = 3\<rparr> = [Ref 0, Ref 1, Ref 2] \<and>
   records (snd (UpdateName (snd (GetAll three_users)) (Ref 0) ''Joe'')) =
     [\<lparr>ID = ''1'', Name = ''Joe'', Email = ''john@example.com''\<rparr>,
      \<lparr>ID = ''2'', Name = ''Jane Smith'', Email = ''jane@example.com''\<rparr>,
      \<lparr>ID = ''3'', Name = ''Bob Johnson'', Email = ''bob@example.com''\<rparr>]"
  by (simp add: GetAll_def go_make_def go_copy_def write_array_def elems_def array_def
      UpdateName_def assign_object_def deref_def records_def load_def ptrs_def three_users_def)

section \<open>The claims\<close>

text \<open>
  C1. For an id that no record of the collection has, the empty id included, \<^verbatim>\<open>GetByID\<close>,
  \<^verbatim>\<open>Update\<close> and \<^verbatim>\<open>Delete\<close> of the repository return the error "user not found",
  and no other error; \<^verbatim>\<open>Update\<close> and \<^verbatim>\<open>Delete\<close> leave the state as it was.
\<close>

theorem absent_id_NotFound:
  assumes "well_formed s" and "uid \<notin> ID ` set (records s)"
  shows "GetByID s uid = Inl NotFound \<and>
         Delete g s uid = (Inl NotFound, s) \<and>
         (\<forall>user u. deref s user = Some u \<and> ID u = uid \<longrightarrow> Update s user = (Inl NotFound, s))"
  using assms by (rule absent_results)

theorem absent_id_NotFound_witness:
  "well_formed three_users \<and> [] \<notin> ID ` set (records three_users) \<and>
   deref three_users (Ref 3) = Some \<lparr>ID = [], Name = ''Eve'', Email = ''eve@example.com''\<rparr> \<and>
   GetByID three_users [] = Inl NotFound \<and>
   Delete double three_users [] = (Inl NotFound, three_users) \<and>
   Update three_users (Ref 3) = (Inl NotFound, three_users)"
proof -
  have a: "well_formed three_users"
    by (rule well_formed_three_users)
  have b: "[] \<notin> ID ` set (records three_users)"
    by (simp add: records_three_users) (simp add: three_users_def)
  have c: "deref three_users (Ref 3) = Some \<lparr>ID = [], Name = ''Eve'', Email = ''eve@example.com''\<rparr>"
    by (simp add: deref_def three_users_def)
  show ?thesis
    using a b c absent_id_NotFound [OF a b, of double] by simp
qed

text \<open>
  C2. The service answers with a validation error ("invalid user ID" or "invalid user data:
  name and email are required") without calling the repository: \<^verbatim>\<open>GetUserByID\<close>,
  \<^verbatim>\<open>UpdateUser\<close> and \<^verbatim>\<open>DeleteUser\<close> when the id is empty, \<^verbatim>\<open>UpdateUser\<close> and
  \<^verbatim>\<open>CreateUser\<close> when the name or the email is empty. The state is then the one before
  the call; after \<^verbatim>\<open>CreateUser\<close> the repository and every array are as before, and the
  only change is the rejected user object that \<^verbatim>\<open>NewUser\<close> had allocated.
  (\<^verbatim>\<open>GetUserByID\<close> never changes the state.)
\<close>

theorem validation_before_store:
  "(\<exists>e. GetUserByID s [] = Inl e \<and> ValidationError e) \<and>
   (\<exists>e. UpdateUser s [] name email = (Inl e, s) \<and> ValidationError e) \<and>
   (\<exists>e. DeleteUser g s [] = (Inl e, s) \<and> ValidationError e) \<and>
   (name = [] \<or> email = [] \<longrightarrow>
      (\<exists>e. UpdateUser s uid name email = (Inl e, s) \<and> ValidationError e) \<and>
      (\<exists>e s'. CreateUser g s uuid name email = (Inl e, s') \<and> ValidationError e \<and>
         users s' = users s \<and> arrs s' = arrs s \<and>
         objs s' = objs s @ [\<lparr>ID = uuid, Name = name, Email = email\<rparr>]))"
proof -
  have "\<exists>e. GetUserByID s [] = Inl e \<and> ValidationError e"
    by (simp add: GetUserByID_def ValidationError_def)
  moreover have "\<exists>e. UpdateUser s [] name email = (Inl e, s) \<and> ValidationError e"
    by (simp add: UpdateUser_def ValidationError_def)
  moreover have "\<exists>e. DeleteUser g s [] = (Inl e, s) \<and> ValidationError e"
    by (simp add: DeleteUser_def ValidationError_def)
  moreover have "\<exists>e. UpdateUser s uid name email = (Inl e, s) \<and> ValidationError e"
    if "name = [] \<or> email = []"
    using that by (auto simp: UpdateUser_def ValidationError_def)
  moreover have "\<exists>e s'. CreateUser g s uuid name email = (Inl e, s') \<and> ValidationError e \<and>
         users s' = users s \<and> arrs s' = arrs s \<and>
         objs s' = objs s @ [\<lparr>ID = uuid, Name = name, Email = email\<rparr>]"
    if "name = [] \<or> email = []"
    using that
    by (auto simp: CreateUser_def NewUser_def new_object_def IsValid_def deref_def
        ValidationError_def)
  ultimately show ?thesis by blast
qed

theorem validation_before_store_witness:
  "(([]::string) = [] \<or> ''eve@example.com'' = []) \<and>
   (\<exists>e. GetUserByID three_users [] = Inl e \<and> ValidationError e) \<and>
   (\<exists>e. UpdateUser three_users [] [] ''eve@example.com'' = (Inl e, three_users) \<and> ValidationError e) \<and>
   (\<exists>e. DeleteUser double three_users [] = (Inl e, three_users) \<and> ValidationError e) \<and>
   (\<exists>e. UpdateUser three_users ''2'' [] ''eve@example.com'' = (Inl e, three_users) \<and> ValidationError e) \<and>
   (\<exists>e s'. CreateUser double three_users ''4'' [] ''eve@example.com'' = (Inl e, s') \<and> ValidationError e \<and>
      users s' = users three_users \<and> arrs s' = arrs three_users \<and>
      objs s' = objs three_users @ [\<lparr>ID = ''4'', Name = [], Email = ''eve@example.com''\<rparr>])"
  using validation_before_store [of three_users "[]" "''eve@example.com''" double "''2''" "''4''"]
  by simp

text \<open>
  C3. \<^verbatim>\<open>Update\<close> with a user whose id some record of the collection has: the first
  pointer \<open>p\<close> to a record with that id is replaced by the given pointer at the same
  position, the pointers before (\<open>xs\<close>) and after (\<open>ys\<close>) and all user objects stay
  as they were, and the length is unchanged. With an id that no record has, \<^verbatim>\<open>Update\<close>
  returns "user not found" and the state is unchanged.
\<close>

theorem update_replaces_first_match:
  assumes "well_formed s" and "deref s user = Some u"
  shows "(ID u \<in> ID ` set (records s) \<longrightarrow>
           (\<exists>xs p ys s'. ptrs s = xs @ p # ys \<and> has_id s (ID u) p \<and>
              (\<forall>q\<in>set xs. \<not> has_id s (ID u) q) \<and>
              Update s user = (Inr user, s') \<and> ptrs s' = xs @ user # ys \<and> objs s' = objs s \<and>
              records s' = load s xs @ u # load s ys \<and>
              length (records s') = length (records s) \<and> well_formed s')) \<and>
         (ID u \<notin> ID ` set (records s) \<longrightarrow> Update s user = (Inl NotFound, s))"
proof (intro conjI impI)
  assume "ID u \<in> ID ` set (records s)"
  then obtain xs p ys where dec: "ptrs s = xs @ p # ys" and here: "has_id s (ID u) p"
    and before: "\<forall>q\<in>set xs. \<not> has_id s (ID u) q"
    using first_match [OF assms(1)] by blast
  obtain s' where upd: "Update s user = (Inr user, s')" and p': "ptrs s' = xs @ user # ys"
    and o': "objs s' = objs s" and v': "valid_slice s' (users s')"
    using Update_result [OF assms(1) dec before here assms(2)] by blast
  have all: "list_all (\<lambda>p. deref s p \<noteq> None) (ptrs s)"
    using assms(1) by (simp add: well_formed_def)
  have all': "list_all (\<lambda>p. deref s p \<noteq> None) (ptrs s')"
    using all assms(2) by (simp add: p' dec)
  have r': "records s' = load s xs @ u # load s ys"
    using load_cong [OF o'] load_Cons_Some [OF assms(2)] by (simp add: records_def p')
  have "length (records s') = length (records s)"
    using length_load [OF all] length_load [OF all'] load_cong [OF o']
    by (simp add: records_def p' dec)
  moreover have "well_formed s'"
    by (rule well_formedI [OF v' o' all'])
  ultimately show "\<exists>xs p ys s'. ptrs s = xs @ p # ys \<and> has_id s (ID u) p \<and>
              (\<forall>q\<in>set xs. \<not> has_id s (ID u) q) \<and>
              Update s user = (Inr user, s') \<and> ptrs s' = xs @ user # ys \<and> objs s' = objs s \<and>
              records s' = load s xs @ u # load s ys \<and>
              length (records s') = length (records s) \<and> well_formed s'"
    using dec here before upd p' o' r' by blast
next
  assume "ID u \<notin> ID ` set (records s)"
  then show "Update s user = (Inl NotFound, s)"
    using absent_results [OF assms(1), of "ID u"] assms(2) by blast
qed


theorem update_replaces_first_match_witness:
  "(well_formed twins \<and> deref twins (Ref 3) = Some \<lparr>ID = ''7'', Name = ''Dee'', Email = ''dee@example.com''\<rparr> \<and>
    ''7'' \<in> ID ` set (records twins) \<and>
    (\<exists>xs p ys s'. ptrs twins = xs @ p # ys \<and> has_id twins ''7'' p \<and>
        (\<forall>q\<in>set xs. \<not> has_id twins ''7'' q) \<and>
        Update twins (Ref 3) = (Inr (Ref 3), s') \<and> ptrs s' = xs @ Ref 3 # ys \<and>
        objs s' = objs twins \<and>
        records s' = load twins xs @ \<lparr>ID = ''7'', Name = ''Dee'', Email = ''dee@example.com''\<rparr> # load twins ys \<and>
        length (records s') = length (records twins) \<and> well_formed s')) \<and>
   (well_formed three_users \<and>
    deref three_users (Ref 3) = Some \<lparr>ID = [], Name = ''Eve'', Email = ''eve@example.com''\<rparr> \<and>
    [] \<notin> ID ` set (records three_users) \<and>
    Update three_users (Ref 3) = (Inl NotFound, three_users))"
proof -
  have a: "well_formed twins"
    by (rule well_formed_twins)
  have b: "deref twins (Ref 3) = Some \<lparr>ID = ''7'', Name = ''Dee'', Email = ''dee@example.com''\<rparr>"
    by (simp add: deref_def twins_def)
  have c: "''7'' \<in> ID ` set (records twins)"
    by (simp add: records_twins) (simp add: twins_def)
  have a': "well_formed three_users"
    by (rule well_formed_three_users)
  have b': "deref three_users (Ref 3) = Some \<lparr>ID = [], Name = ''Eve'', Email = ''eve@example.com''\<rparr>"
    by (simp add: deref_def three_users_def)
  have c': "[] \<notin> ID ` set (records three_users)"
    by (simp add: records_three_users) (simp add: three_users_def)
  show ?thesis
    using a b c a' b' c' update_replaces_first_match [OF a b] update_replaces_first_match [OF a' b']
    by simp
qed

text \<open>
  C4. \<^verbatim>\<open>Delete\<close> with an id that some record of the collection has: the first pointer
  \<open>p\<close> to a record with that id is removed, the pointers after it follow the pointers
  before it in their old order, the user objects are untouched and the length goes down by
  one. With an id that no record has, \<^verbatim>\<open>Delete\<close> returns "user not found" and the state
  is unchanged.
\<close>

theorem delete_removes_first_match:
  assumes "well_formed s"
  shows "(uid \<in> ID ` set (records s) \<longrightarrow>
           (\<exists>xs p ys s'. ptrs s = xs @ p # ys \<and> has_id s uid p \<and>
              (\<forall>q\<in>set xs. \<not> has_id s uid q) \<and>
              Delete g s uid = (Inr (), s') \<and> ptrs s' = xs @ ys \<and> objs s' = objs s \<and>
              records s' = load s xs @ load s ys \<and>
              Suc (length (records s')) = length (records s) \<and> well_formed s')) \<and>
         (uid \<notin> ID ` set (records s) \<longrightarrow> Delete g s uid = (Inl NotFound, s))"
proof (intro conjI impI)
  assume "uid \<in> ID ` set (records s)"
  then obtain xs p ys where dec: "ptrs s = xs @ p # ys" and here: "has_id s uid p"
    and before: "\<forall>q\<in>set xs. \<not> has_id s uid q"
    using first_match [OF assms] by blast
  obtain s' where del: "Delete g s uid = (Inr (), s')" and p': "ptrs s' = xs @ ys"
    and o': "objs s' = objs s" and v': "valid_slice s' (users s')"
    using Delete_result [OF assms dec before here] by blast
  have all: "list_all (\<lambda>p. deref s p \<noteq> None) (ptrs s)"
    using assms by (simp add: well_formed_def)
  have all': "list_all (\<lambda>p. deref s p \<noteq> None) (ptrs s')"
    using all by (simp add: p' dec)
  have r': "records s' = load s xs @ load s ys"
    using load_cong [OF o'] by (simp add: records_def p')
  have "Suc (length (records s')) = length (records s)"
    using length_load [OF all] length_load [OF all'] load_cong [OF o']
    by (simp add: records_def p' dec)
  moreover have "well_formed s'"
    by (rule well_formedI [OF v' o' all'])
  ultimately show "\<exists>xs p ys s'. ptrs s = xs @ p # ys \<and> has_id s uid p \<and>
              (\<forall>q\<in>set xs. \<not> has_id s uid q) \<and>
              Delete g s uid = (Inr (), s') \<and> ptrs s' = xs @ ys \<and> objs s' = objs s \<and>
              records s' = load s xs @ load s ys \<and>
              Suc (length (records s')) = length (records s) \<and> well_formed s'"
    using dec here before del p' o' r' by blast
next
  assume "uid \<notin> ID ` set (records s)"
  then show "Delete g s uid = (Inl NotFound, s)"
    using absent_results [OF assms, of uid] by blast
qed

theorem delete_removes_first_match_witness:
  "(well_formed three_users \<and> ''2'' \<in> ID ` set (records three_users) \<and>
    (\<exists>xs p ys s'. ptrs three_users = xs @ p # ys \<and> has_id three_users ''2'' p \<and>
        (\<forall>q\<in>set xs. \<not> has_id three_users ''2'' q) \<and>
        Delete double three_users ''2'' = (Inr (), s') \<and> ptrs s' = xs @ ys \<and>
        objs s' = objs three_users \<and>
        records s' = load three_users xs @ load three_users ys \<and>
        Suc (length (records s')) = length (records three_users) \<and> well_formed s')) \<and>
   (''9'' \<notin> ID ` set (records three_users) \<and>
    Delete double three_users ''9'' = (Inl NotFound, three_users))"
proof -
  have a: "well_formed three_users"
    by (rule well_formed_three_users)
  have b: "''2'' \<in> ID ` set (records three_users)"
    by (simp add: records_three_users) (simp add: three_users_def)
  have c: "''9'' \<notin> ID ` set (records three_users)"
    by (simp add: records_three_users) (simp add: three_users_def)
  show ?thesis
    using a b c delete_removes_first_match [OF a, of "''2''" double]
      delete_removes_first_match [OF a, of "''9''" double]
    by simp
qed

text \<open>
  C5. \<^verbatim>\<open>Create\<close> always returns the given pointer and no error, and puts that pointer
  behind the last element: the length grows by one. Nothing is asked of the id: the number
  of records with the id of the new user grows by one as well, whether or not the id was
  already there.
\<close>

theorem create_appends:
  assumes "well_formed s" and "deref s user = Some u"
  shows "\<exists>s'. Create g s user = (Inr user, s') \<and> ptrs s' = ptrs s @ [user] \<and>
           objs s' = objs s \<and> records s' = records s @ [u] \<and>
           length (records s') = Suc (length (records s)) \<and>
           length (filter (\<lambda>r. ID r = ID u) (records s')) =
             Suc (length (filter (\<lambda>r. ID r = ID u) (records s))) \<and>
           well_formed s'"
proof -
  have vs: "valid_slice s (users s)" and all: "list_all (\<lambda>p. deref s p \<noteq> None) (ptrs s)"
    using assms(1) by (simp_all add: well_formed_def)
  obtain s' where cr: "Create g s user = (Inr user, s')" and p': "ptrs s' = ptrs s @ [user]"
    and o': "objs s' = objs s" and v': "valid_slice s' (users s')"
    using Create_result [OF vs] by blast
  have all': "list_all (\<lambda>p. deref s p \<noteq> None) (ptrs s')"
    using all assms(2) by (simp add: p')
  have r': "records s' = records s @ [u]"
    using load_cong [OF o'] load_Some [OF assms(2)] by (simp add: records_def p')
  have "well_formed s'"
    by (rule well_formedI [OF v' o' all'])
  then show ?thesis
    using cr p' o' r' by simp
qed

theorem create_appends_witness:
  "well_formed twins \<and>
   deref twins (Ref 3) = Some \<lparr>ID = ''7'', Name = ''Dee'', Email = ''dee@example.com''\<rparr> \<and>
   ''7'' \<in> ID ` set (records twins) \<and>
   (\<exists>s'. Create double twins (Ref 3) = (Inr (Ref 3), s') \<and>
      ptrs s' = ptrs twins @ [Ref 3] \<and> objs s' = objs twins \<and>
      records s' = records twins @ [\<lparr>ID = ''7'', Name = ''Dee'', Email = ''dee@example.com''\<rparr>] \<and>
      length (records s') = Suc (length (records twins)) \<and>
      length (filter (\<lambda>r. ID r = ''7'') (records s')) =
        Suc (length (filter (\<lambda>r. ID r = ''7'') (records twins))) \<and>
      well_formed s')"
proof -
  have a: "well_formed twins"
    by (rule well_formed_twins)
  have b: "deref twins (Ref 3) = Some \<lparr>ID = ''7'', Name = ''Dee'', Email = ''dee@example.com''\<rparr>"
    by (simp add: deref_def twins_def)
  have c: "''7'' \<in> ID ` set (records twins)"
    by (simp add: records_twins) (simp add: twins_def)
  show ?thesis
    using a b c create_appends [OF a b, of double] by simp
qed

text \<open>
  C6. \<^verbatim>\<open>GetAll\<close> never returns an error. The slice it returns shows the pointers of the
  collection in their order, element for element, and the collection itself is as before.
  The returned slice has its own array: assigning any value (nil, say) to any of its entries
  changes that entry and leaves the collection of the repository as it was.
\<close>

theorem GetAll_snapshot:
  assumes "well_formed s"
  shows "\<exists>result s'. GetAll s = (Inr result, s') \<and>
           elems s' result = ptrs s \<and> load s' (elems s' result) = records s \<and>
           ptrs s' = ptrs s \<and> records s' = records s \<and> users s' = users s \<and> objs s' = objs s \<and>
           (\<forall>i v. i < length (ptrs s) \<longrightarrow>
              (\<exists>s''. store_index s' result i v = Some s'' \<and>
                 elems s'' result = (ptrs s)[i := v] \<and>
                 ptrs s'' = ptrs s \<and> records s'' = records s \<and> users s'' = users s))"
proof -
  have vs: "valid_slice s (users s)"
    using assms by (simp add: well_formed_def)
  obtain result s' where g: "GetAll s = (Inr result, s')" and e: "elems s' result = ptrs s"
    and p': "ptrs s' = ptrs s" and o': "objs s' = objs s" and u': "users s' = users s"
    and v': "valid_slice s' result" and ne: "arr result \<noteq> arr (users s)"
    using GetAll_result [OF vs] by blast
  have r': "records s' = records s"
    using load_cong [OF o'] by (simp add: records_def p')
  have w: "\<exists>s''. store_index s' result i v = Some s'' \<and>
                 elems s'' result = (ptrs s)[i := v] \<and>
                 ptrs s'' = ptrs s \<and> records s'' = records s \<and> users s'' = users s"
    if "i < length (ptrs s)" for i v
  proof -
    let ?s'' = "write_array s' (arr result) (off result + i) [v]"
    have i: "i < len result"
      using that length_elems [OF v'] e by simp
    have "store_index s' result i v = Some ?s''"
      using i by (simp add: store_index_def)
    moreover have "elems ?s'' result = (ptrs s)[i := v]"
      using elems_store_index [OF v' i] e by simp
    moreover have p'': "ptrs ?s'' = ptrs s"
      using elems_write_array_other [of "users s'" "arr result" s'] ne u' p' by (simp add: ptrs_def)
    moreover have "records ?s'' = records s"
      using load_cong [of ?s'' s] o' by (simp add: records_def p'')
    ultimately show ?thesis
      using u' by simp
  qed
  show ?thesis
    using g e p' r' u' o' w load_cong [OF o'] by (auto simp: records_def)
qed

theorem GetAll_snapshot_witness:
  "well_formed three_users \<and> 0 < length (ptrs three_users) \<and>
   (\<exists>result s' s''. GetAll three_users = (Inr result, s') \<and>
      elems s' result = ptrs three_users \<and> load s' (elems s' result) = records three_users \<and>
      ptrs s' = ptrs three_users \<and> records s' = records three_users \<and>
      users s' = users three_users \<and> objs s' = objs three_users \<and>
      store_index s' result 0 nil = Some s'' \<and>
      elems s'' result = (ptrs three_users)[0 := nil] \<and>
      ptrs s'' = ptrs three_users \<and> records s'' = records three_users \<and>
      users s'' = users three_users)"
proof -
  have a: "well_formed three_users"
    by (rule well_formed_three_users)
  have b: "0 < length (ptrs three_users)"
    by (simp add: ptrs_three_users)
  obtain result s' where g: "GetAll three_users = (Inr result, s') \<and>
      elems s' result = ptrs three_users \<and> load s' (elems s' result) = records three_users \<and>
      ptrs s' = ptrs three_users \<and> records s' = records three_users \<and>
      users s' = users three_users \<and> objs s' = objs three_users"
    and w: "\<forall>i v. i < length (ptrs three_users) \<longrightarrow>
         (\<exists>s''. store_index s' result i v = Some s'' \<and>
            elems s'' result = (ptrs three_users)[i := v] \<and>
            ptrs s'' = ptrs three_users \<and> records s'' = records three_users \<and>
            users s'' = users three_users)"
    using GetAll_snapshot [OF a] by blast
  obtain s'' where "store_index s' result 0 nil = Some s'' \<and>
            elems s'' result = (ptrs three_users)[0 := nil] \<and>
            ptrs s'' = ptrs three_users \<and> records s'' = records three_users \<and>
            users s'' = users three_users"
    using w b by blast
  then show ?thesis
    using a b g by blast
qed

text \<open>
  C7, as amended. On a state where no record of the collection has the id of the new user:
  for a non-empty name and a non-empty email, \<^verbatim>\<open>CreateUser\<close> followed by
  \<^verbatim>\<open>GetUserByID\<close> with the id of the created user (a non-empty string, as
  \<^verbatim>\<open>uuid.New().String()\<close> gives) returns a user equal to the created one in id, name
  and email; and \<^verbatim>\<open>Create\<close> of the repository followed by \<^verbatim>\<open>GetByID\<close> with the id
  of the given user returns the given pointer, with the user unchanged.
\<close>

theorem create_then_get_fresh:
  assumes wf: "well_formed s" and fresh: "uuid \<notin> ID ` set (records s)"
  shows "(name \<noteq> [] \<and> email \<noteq> [] \<and> uuid \<noteq> [] \<longrightarrow> create_then_get g s uuid name email) \<and>
         (\<forall>user u. deref s user = Some u \<and> ID u = uuid \<longrightarrow>
            (\<exists>s'. Create g s user = (Inr user, s') \<and> GetByID s' uuid = Inr user \<and>
               deref s' user = Some u))"
proof (intro conjI impI allI)
  assume valid: "name \<noteq> [] \<and> email \<noteq> [] \<and> uuid \<noteq> []"
  let ?c = "\<lparr>ID = uuid, Name = name, Email = email\<rparr>"
  let ?p = "Ref (length (objs s))"
  let ?s1 = "s\<lparr>objs := objs s @ [?c]\<rparr>"
  have all: "list_all (\<lambda>q. deref s q \<noteq> None) (ptrs s)"
    using wf by (simp add: well_formed_def)
  have old: "deref ?s1 q = deref s q" if "q \<in> set (ptrs s)" for q
    using that all deref_allocated [of s q] by (simp add: deref_new_object list_all_iff)
  have p1: "ptrs ?s1 = ptrs s"
    by (simp add: ptrs_def)
  have v1: "valid_slice ?s1 (users ?s1)"
    using wf by (simp add: well_formed_def)
  obtain s' where cr: "Create g ?s1 ?p = (Inr ?p, s')" and p': "ptrs s' = ptrs ?s1 @ [?p]"
    and o': "objs s' = objs ?s1"
    using Create_result [OF v1] by blast
  have d': "deref s' q = deref ?s1 q" for q
    by (rule deref_cong [OF o'])
  have dp: "deref s' ?p = Some ?c"
    by (simp add: d' deref_new_object)
  have all': "list_all (\<lambda>q. deref s' q \<noteq> None) (ptrs s)"
    using all old by (simp add: d' list_all_iff)
  have none: "\<forall>q\<in>set (ptrs s). \<not> has_id s' uuid q"
    using fresh present_iff [OF wf, of uuid] old by (simp add: has_id_def d')
  have here: "has_id s' uuid ?p"
    using dp by (simp add: has_id_def)
  have "GetByID s' uuid = Inr ?p"
    using GetByID_loop_first [OF all' none here, of "[]"] p' p1
    by (simp add: GetByID_def ptrs_def)
  then show "create_then_get g s uuid name email"
    using valid cr dp by (simp add: create_then_get_def CreateUser_valid GetUserByID_def)
next
  fix user u
  assume h: "deref s user = Some u \<and> ID u = uuid"
  have vs: "valid_slice s (users s)" and all: "list_all (\<lambda>q. deref s q \<noteq> None) (ptrs s)"
    using wf by (simp_all add: well_formed_def)
  obtain s' where cr: "Create g s user = (Inr user, s')" and p': "ptrs s' = ptrs s @ [user]"
    and o': "objs s' = objs s"
    using Create_result [OF vs] by blast
  have d': "deref s' q = deref s q" for q
    by (rule deref_cong [OF o'])
  have all': "list_all (\<lambda>q. deref s' q \<noteq> None) (ptrs s)"
    using all by (simp add: d')
  have none: "\<forall>q\<in>set (ptrs s). \<not> has_id s' uuid q"
    using fresh present_iff [OF wf, of uuid] by (simp add: has_id_def d')
  have here: "has_id s' uuid user"
    using h by (simp add: has_id_def d')
  have "GetByID s' uuid = Inr user"
    using GetByID_loop_first [OF all' none here, of "[]"] p'
    by (simp add: GetByID_def ptrs_def)
  then show "\<exists>s'. Create g s user = (Inr user, s') \<and> GetByID s' uuid = Inr user \<and>
               deref s' user = Some u"
    using cr h d' by simp
qed

theorem create_then_get_fresh_witness:
  "well_formed three_users \<and> ''Bob'' \<noteq> [] \<and> ''bob@example.com'' \<noteq> [] \<and>
   ''3f2b8c1e-5d4a-4e6f-9a7b-0c1d2e3f4a5b'' \<noteq> [] \<and>
   ''3f2b8c1e-5d4a-4e6f-9a7b-0c1d2e3f4a5b'' \<notin> ID ` set (records three_users) \<and>
   create_then_get double three_users ''3f2b8c1e-5d4a-4e6f-9a7b-0c1d2e3f4a5b'' ''Bob''
     ''bob@example.com'' \<and>
   [] \<notin> ID ` set (records three_users) \<and>
   deref three_users (Ref 3) = Some \<lparr>ID = [], Name = ''Eve'', Email = ''eve@example.com''\<rparr> \<and>
   (\<exists>s'. Create double three_users (Ref 3) = (Inr (Ref 3), s') \<and> GetByID s' [] = Inr (Ref 3) \<and>
      deref s' (Ref 3) = Some \<lparr>ID = [], Name = ''Eve'', Email = ''eve@example.com''\<rparr>)"
proof -
  have a: "well_formed three_users"
    by (rule well_formed_three_users)
  have e: "''3f2b8c1e-5d4a-4e6f-9a7b-0c1d2e3f4a5b'' \<notin> ID ` set (records three_users)"
    and e': "[] \<notin> ID ` set (records three_users)"
    by (simp_all add: records_three_users) (simp_all add: three_users_def)
  have d: "deref three_users (Ref 3) = Some \<lparr>ID = [], Name = ''Eve'', Email = ''eve@example.com''\<rparr>"
    by (simp add: deref_def three_users_def)
  show ?thesis
    using a e e' d create_then_get_fresh [OF a e, of "''Bob''" "''bob@example.com''" double]
      create_then_get_fresh [OF a e', of "[]" "[]" double]
    by simp
qed

text \<open>
  Without the condition on the id the round trip fails: \<^verbatim>\<open>Create\<close> checks no id, and
  \<^verbatim>\<open>GetByID\<close> returns the first record with the id. Through the service: the collection
  holds Ann under the id that the generator returns for Bob, and the lookup after creating
  Bob finds Ann. On the repository, where the caller chooses the id: Dee is created under
  the id 7 that Ann has, and the lookup of 7 finds Ann.
\<close>

theorem create_then_get_counterexample:
  "well_formed one_user \<and> ''Bob'' \<noteq> [] \<and> ''bob@example.com'' \<noteq> [] \<and>
   fst (CreateUser double one_user ''3f2b8c1e-5d4a-4e6f-9a7b-0c1d2e3f4a5b'' ''Bob''
          ''bob@example.com'') = Inr (Ref 1) \<and>
   GetUserByID
     (snd (CreateUser double one_user ''3f2b8c1e-5d4a-4e6f-9a7b-0c1d2e3f4a5b'' ''Bob''
             ''bob@example.com''))
     ''3f2b8c1e-5d4a-4e6f-9a7b-0c1d2e3f4a5b'' = Inr (Ref 0) \<and>
   deref
     (snd (CreateUser double one_user ''3f2b8c1e-5d4a-4e6f-9a7b-0c1d2e3f4a5b'' ''Bob''
             ''bob@example.com''))
     (Ref 0) =
     Some \<lparr>ID = ''3f2b8c1e-5d4a-4e6f-9a7b-0c1d2e3f4a5b'', Name = ''Ann'',
            Email = ''ann@example.com''\<rparr> \<and>
   \<not> create_then_get double one_user ''3f2b8c1e-5d4a-4e6f-9a7b-0c1d2e3f4a5b'' ''Bob''
        ''bob@example.com'' \<and>
   well_formed twins \<and>
   deref twins (Ref 3) = Some \<lparr>ID = ''7'', Name = ''Dee'', Email = ''dee@example.com''\<rparr> \<and>
   fst (Create double twins (Ref 3)) = Inr (Ref 3) \<and>
   GetByID (snd (Create double twins (Ref 3))) ''7'' = Inr (Ref 1) \<and>
   deref (snd (Create double twins (Ref 3))) (Ref 1) =
     Some \<lparr>ID = ''7'', Name = ''Ann'', Email = ''ann@example.com''\<rparr>"
  by (simp add: create_then_get_def CreateUser_def NewUser_def new_object_def IsValid_def
      Create_def go_append_def double_def GetUserByID_def GetByID_def elems_def array_def
      deref_def one_user_def twins_def well_formed_def valid_slice_def ptrs_def Let_def)

text \<open>
  C8. When several records share an id, with \<open>p\<close> the first of them (no pointer in
  \<open>xs\<close> before it has the id): \<^verbatim>\<open>GetByID\<close> returns \<open>p\<close>; \<^verbatim>\<open>Update\<close> replaces
  \<open>p\<close> alone and \<^verbatim>\<open>Delete\<close> removes \<open>p\<close> alone. The later records \<open>ys\<close>, those
  with the same id among them, keep their place and their contents.
\<close>

theorem first_match_only:
  assumes wf: "well_formed s" and dec: "ptrs s = xs @ p # ys"
    and here: "has_id s uid p" and before: "\<forall>q\<in>set xs. \<not> has_id s uid q"
    and user: "deref s user = Some u" and uid: "ID u = uid"
  shows "GetByID s uid = Inr p \<and>
         (\<exists>s'. Update s user = (Inr user, s') \<and> ptrs s' = xs @ user # ys \<and> objs s' = objs s \<and>
            filter (has_id s' uid) (ptrs s') = user # filter (has_id s uid) ys) \<and>
         (\<exists>s'. Delete g s uid = (Inr (), s') \<and> ptrs s' = xs @ ys \<and> objs s' = objs s \<and>
            filter (has_id s' uid) (ptrs s') = filter (has_id s uid) ys)"
proof -
  have all: "list_all (\<lambda>q. deref s q \<noteq> None) xs"
    using well_formed_ptrs [OF wf dec] by simp
  have none: "filter (has_id s uid) xs = []"
    using before by (simp add: filter_empty_conv)
  have hu: "has_id s uid user"
    using user uid by (simp add: has_id_def)
  have "GetByID s uid = Inr p"
    using GetByID_loop_first [OF all before here, of ys] dec by (simp add: GetByID_def ptrs_def)
  moreover have "\<exists>s'. Update s user = (Inr user, s') \<and> ptrs s' = xs @ user # ys \<and>
      objs s' = objs s \<and> filter (has_id s' uid) (ptrs s') = user # filter (has_id s uid) ys"
  proof -
    obtain s' where r: "Update s user = (Inr user, s')" "ptrs s' = xs @ user # ys"
      and o': "objs s' = objs s"
      using Update_result [OF wf dec _ _ user] before here uid by blast
    have "has_id s' uid = has_id s uid"
      using has_id_cong [OF o'] by (simp add: fun_eq_iff)
    then show ?thesis
      using r o' none hu by simp
  qed
  moreover have "\<exists>s'. Delete g s uid = (Inr (), s') \<and> ptrs s' = xs @ ys \<and> objs s' = objs s \<and>
      filter (has_id s' uid) (ptrs s') = filter (has_id s uid) ys"
  proof -
    obtain s' where r: "Delete g s uid = (Inr (), s')" "ptrs s' = xs @ ys"
      and o': "objs s' = objs s"
      using Delete_result [OF wf dec before here] by blast
    have "has_id s' uid = has_id s uid"
      using has_id_cong [OF o'] by (simp add: fun_eq_iff)
    then show ?thesis
      using r o' none by simp
  qed
  ultimately show ?thesis by blast
qed

theorem first_match_only_witness:
  "well_formed twins \<and> ptrs twins = [Ref 0] @ Ref 1 # [Ref 2] \<and>
   \<not> has_id twins ''7'' (Ref 0) \<and> has_id twins ''7'' (Ref 1) \<and> has_id twins ''7'' (Ref 2) \<and>
   deref twins (Ref 3) = Some \<lparr>ID = ''7'', Name = ''Dee'', Email = ''dee@example.com''\<rparr> \<and>
   GetByID twins ''7'' = Inr (Ref 1) \<and>
   (\<exists>s'. Update twins (Ref 3) = (Inr (Ref 3), s') \<and> ptrs s' = [Ref 0, Ref 3, Ref 2] \<and>
      objs s' = objs twins \<and> filter (has_id s' ''7'') (ptrs s') = [Ref 3, Ref 2]) \<and>
   (\<exists>s'. Delete double twins ''7'' = (Inr (), s') \<and> ptrs s' = [Ref 0, Ref 2] \<and>
      objs s' = objs twins \<and> filter (has_id s' ''7'') (ptrs s') = [Ref 2])"
proof -
  have a: "well_formed twins"
    by (rule well_formed_twins)
  have b: "ptrs twins = [Ref 0] @ Ref 1 # [Ref 2]"
    by (simp add: ptrs_twins)
  have c0: "\<not> has_id twins ''7'' (Ref 0)" and c: "has_id twins ''7'' (Ref 1)"
    and c2: "has_id twins ''7'' (Ref 2)"
    by (simp_all add: has_id_def deref_def twins_def)
  have d: "\<forall>q\<in>set [Ref 0]. \<not> has_id twins ''7'' q"
    using c0 by simp
  have e: "deref twins (Ref 3) = Some \<lparr>ID = ''7'', Name = ''Dee'', Email = ''dee@example.com''\<rparr>"
    by (simp add: deref_def twins_def)
  have f: "ID \<lparr>ID = ''7'', Name = ''Dee'', Email = ''dee@example.com''\<rparr> = ''7''"
    by simp
  show ?thesis
    using a b c0 c c2 e first_match_only [OF a b c d e f, of double] by simp
qed

text \<open>
  C9. In \<^verbatim>\<open>UpdateUser\<close>, once the id, the name and the email have been found non-empty:
  if \<^verbatim>\<open>GetByID\<close> fails, its error is returned; if it returns a user, then
  \<^verbatim>\<open>UpdateName\<close> and \<^verbatim>\<open>UpdateEmail\<close> succeed on it, the \<^verbatim>\<open>IsValid\<close> that follows
  is true, and the result of \<^verbatim>\<open>UpdateUser\<close> is the result of the call of
  \<^verbatim>\<open>Update\<close>. The second "invalid user data" return is never taken.
\<close>

theorem UpdateUser_recheck_always_true:
  assumes "uid \<noteq> []" and "name \<noteq> []" and "email \<noteq> []"
  shows "(\<forall>err. GetByID s uid = Inl err \<longrightarrow> UpdateUser s uid name email = (Inl err, s)) \<and>
         (\<forall>existingUser. GetByID s uid = Inr existingUser \<longrightarrow>
            (\<exists>s1 s2. UpdateName s existingUser name = (Inr (), s1) \<and>
               UpdateEmail s1 existingUser email = (Inr (), s2) \<and>
               IsValid s2 existingUser = Inr True \<and>
               UpdateUser s uid name email = Update s2 existingUser))"
proof (intro conjI allI impI)
  fix err assume "GetByID s uid = Inl err"
  then show "UpdateUser s uid name email = (Inl err, s)"
    using assms by (simp add: UpdateUser_def)
next
  fix existingUser assume g: "GetByID s uid = Inr existingUser"
  then obtain n u where p: "existingUser = Ref n" and n: "n < length (objs s)"
    and d: "deref s existingUser = Some u"
    using GetByID_loop_Inr [of s uid "elems s (users s)" existingUser] by (auto simp: GetByID_def)
  let ?s1 = "assign_object s n (u\<lparr>Name := name\<rparr>)"
  let ?s2 = "assign_object ?s1 n (u\<lparr>Name := name, Email := email\<rparr>)"
  have n1: "n < length (objs ?s1)"
    using n by (simp add: assign_object_def)
  have d1: "deref ?s1 existingUser = Some (u\<lparr>Name := name\<rparr>)"
    unfolding p by (rule deref_assign_object [OF n])
  have d2: "deref ?s2 existingUser = Some (u\<lparr>Name := name, Email := email\<rparr>)"
    unfolding p by (rule deref_assign_object [OF n1])
  have un: "UpdateName s existingUser name = (Inr (), ?s1)"
    using d by (simp add: UpdateName_def p)
  have ue: "UpdateEmail ?s1 existingUser email = (Inr (), ?s2)"
    using d1 by (simp add: UpdateEmail_def p)
  have iv: "IsValid ?s2 existingUser = Inr True"
    using d2 assms by (simp add: IsValid_def)
  have "UpdateUser s uid name email = Update ?s2 existingUser"
    using assms g un ue iv by (simp add: UpdateUser_def p)
  then show "\<exists>s1 s2. UpdateName s existingUser name = (Inr (), s1) \<and>
               UpdateEmail s1 existingUser email = (Inr (), s2) \<and>
               IsValid s2 existingUser = Inr True \<and>
               UpdateUser s uid name email = Update s2 existingUser"
    using un ue iv by blast
qed

theorem UpdateUser_recheck_always_true_witness:
  "''2'' \<noteq> [] \<and> ''Jen'' \<noteq> [] \<and> ''jen@example.com'' \<noteq> [] \<and>
   GetByID three_users ''2'' = Inr (Ref 1) \<and>
   (\<exists>s1 s2. UpdateName three_users (Ref 1) ''Jen'' = (Inr (), s1) \<and>
      UpdateEmail s1 (Ref 1) ''jen@example.com'' = (Inr (), s2) \<and>
      IsValid s2 (Ref 1) = Inr True \<and>
      UpdateUser three_users ''2'' ''Jen'' ''jen@example.com'' = Update s2 (Ref 1))"
proof -
  have a: "''2'' \<noteq> []" and b: "''Jen'' \<noteq> []" and c: "''jen@example.com'' \<noteq> []"
    by simp_all
  have g: "GetByID three_users ''2'' = Inr (Ref 1)"
    using ptrs_three_users by (simp add: GetByID_def ptrs_def deref_def three_users_def)
  show ?thesis
    using g UpdateUser_recheck_always_true [OF a b c, of three_users] by simp
qed

text \<open>
  C10. With calls taken one at a time and a non-empty id, \<^verbatim>\<open>DeleteUser\<close> of the service
  returns the same result and the same state as \<^verbatim>\<open>Delete\<close> of the repository. On a
  well-formed state it succeeds exactly when some record has the id, and returns
  "user not found", with the state unchanged, when none has.
\<close>

theorem DeleteUser_is_Delete:
  assumes "uid \<noteq> []"
  shows "DeleteUser g s uid = Delete g s uid \<and>
         (well_formed s \<longrightarrow>
            ((\<exists>s'. DeleteUser g s uid = (Inr (), s')) \<longleftrightarrow> uid \<in> ID ` set (records s)) \<and>
            (uid \<notin> ID ` set (records s) \<longrightarrow> DeleteUser g s uid = (Inl NotFound, s)))"
proof -
  have eq: "DeleteUser g s uid = Delete g s uid"
  proof (cases "GetByID s uid")
    case (Inl e)
    then have "Delete g s uid = (Inl e, s)"
      using GetByID_loop_Inl_Delete_loop [of s uid "elems s (users s)" e g 0]
      by (simp add: GetByID_def Delete_def)
    then show ?thesis
      using assms Inl by (simp add: DeleteUser_def)
  next
    case (Inr p)
    then have "p \<noteq> nil"
      using GetByID_loop_Inr [of s uid "elems s (users s)" p] by (auto simp: GetByID_def)
    then show ?thesis
      using assms Inr by (simp add: DeleteUser_def)
  qed
  have "(\<exists>s'. Delete g s uid = (Inr (), s')) \<longleftrightarrow> uid \<in> ID ` set (records s)"
    if wf: "well_formed s"
  proof
    assume *: "\<exists>s'. Delete g s uid = (Inr (), s')"
    show "uid \<in> ID ` set (records s)"
    proof (rule ccontr)
      assume "uid \<notin> ID ` set (records s)"
      then have "Delete g s uid = (Inl NotFound, s)"
        using absent_results [OF wf] by blast
      then show False using * by simp
    qed
  next
    assume "uid \<in> ID ` set (records s)"
    then obtain xs p ys where "ptrs s = xs @ p # ys" "has_id s uid p"
      "\<forall>q\<in>set xs. \<not> has_id s uid q"
      using first_match [OF wf] by blast
    then show "\<exists>s'. Delete g s uid = (Inr (), s')"
      using Delete_result [OF wf, of xs p ys uid g] by blast
  qed
  moreover have "Delete g s uid = (Inl NotFound, s)"
    if "well_formed s" "uid \<notin> ID ` set (records s)"
    using absent_results [OF that] by blast
  ultimately show ?thesis
    using eq by simp
qed

theorem DeleteUser_is_Delete_witness:
  "''2'' \<noteq> [] \<and> ''9'' \<noteq> [] \<and> well_formed three_users \<and>
   ''2'' \<in> ID ` set (records three_users) \<and> ''9'' \<notin> ID ` set (records three_users) \<and>
   DeleteUser double three_users ''2'' = Delete double three_users ''2'' \<and>
   (\<exists>s'. DeleteUser double three_users ''2'' = (Inr (), s')) \<and>
   DeleteUser double three_users ''9'' = Delete double three_users ''9'' \<and>
   DeleteUser double three_users ''9'' = (Inl NotFound, three_users)"
proof -
  have a: "''2'' \<noteq> []" and a': "''9'' \<noteq> []"
    by simp_all
  have w: "well_formed three_users"
    by (rule well_formed_three_users)
  have b: "''2'' \<in> ID ` set (records three_users)"
    by (simp add: records_three_users) (simp add: three_users_def)
  have c: "''9'' \<notin> ID ` set (records three_users)"
    by (simp add: records_three_users) (simp add: three_users_def)
  have "DeleteUser double three_users ''2'' = Delete double three_users ''2''"
    and "\<exists>s'. DeleteUser double three_users ''2'' = (Inr (), s')"
    using w b DeleteUser_is_Delete [OF a, of double three_users] by blast+
  moreover have "DeleteUser double three_users ''9'' = Delete double three_users ''9''"
    and "DeleteUser double three_users ''9'' = (Inl NotFound, three_users)"
    using w c DeleteUser_is_Delete [OF a', of double three_users] by blast+
  ultimately show ?thesis
    using a a' w b c by blast
qed

end
